theory Spec2Isabelle
  imports Main
begin

section \<open>The dashboard data store (dashboard/src/context/data.tsx)\<close>

subsection \<open>Data model\<close>

text \<open>
  \<^verbatim>\<open>type SliceName = keyof Store\<close>, the four keys of the store.
\<close>

datatype SliceName = config | status | graph | logs

definition sliceNames :: "SliceName list" where
  "sliceNames = [config, status, graph, logs]"

text \<open>
  \<^verbatim>\<open>interface StoreSlice { error: Error | null; loading: boolean }\<close> extended by
  \<^verbatim>\<open>data: T | null\<close>. The response types \<open>T\<close> are declared in \<^verbatim>\<open>../api/types\<close>;
  they are the type parameter \<open>'d\<close>, and \<open>'e\<close> is the type of \<^verbatim>\<open>Error\<close> values.
  \<open>None\<close> is \<^verbatim>\<open>null\<close>.
\<close>

record ('d, 'e) StoreSlice =
  data :: "'d option"
  error :: "'e option"
  loading :: bool

text \<open>
  \<^verbatim>\<open>interface Store\<close>: an object with exactly the keys of \<open>SliceName\<close>, read as
  \<^verbatim>\<open>store[key]\<close>; a total function from the keys.
\<close>

type_synonym ('d, 'e) Store = "SliceName \<Rightarrow> ('d, 'e) StoreSlice"

text \<open>
  The argument \<^verbatim>\<open>sliceState: Object\<close> of \<^verbatim>\<open>updateSlice\<close>: an object literal holding
  any subset of the properties \<^verbatim>\<open>data\<close>, \<^verbatim>\<open>error\<close>, \<^verbatim>\<open>loading\<close>. For each property,
  \<open>None\<close> says that the literal does not have it and \<open>Some v\<close> that it has it with
  value \<open>v\<close> (so \<open>Some None\<close> is \<^verbatim>\<open>error: null\<close>).
\<close>

record ('d, 'e) sliceState =
  set_data :: "'d option option"
  set_error :: "'e option option"
  set_loading :: "bool option"

text \<open>The three literals the file passes: lines 85 and 94, line 89, lines 91 and 103.\<close>

definition loading_is :: "bool \<Rightarrow> ('d, 'e) sliceState" where
  "loading_is b = \<lparr>set_data = None, set_error = None, set_loading = Some b\<rparr>"

definition data_res :: "'d \<Rightarrow> ('d, 'e) sliceState" where
  "data_res res = \<lparr>set_data = Some (Some res), set_error = Some None, set_loading = None\<rparr>"

definition error_is :: "'e \<Rightarrow> ('d, 'e) sliceState" where
  "error_is err = \<lparr>set_data = None, set_error = Some (Some err), set_loading = None\<rparr>"

text \<open>
  Lines 60 to 64: \<^verbatim>\<open>sliceNames.reduce\<close> starts from the empty object and stores a fresh
  empty slice under each key; the result is cast to \<^verbatim>\<open>Store\<close>. The accumulator is a
  partial map, and the cast reads it as a total one.
\<close>

definition emptySlice :: "('d, 'e) StoreSlice" where
  "emptySlice = \<lparr>data = None, error = None, loading = False\<rparr>"

definition initialState :: "('d, 'e) Store" where
  "initialState =
     (let acc = foldl (\<lambda>acc key. acc(key \<mapsto> emptySlice)) Map.empty sliceNames
      in (\<lambda>key. the (acc key)))"

subsection \<open>updateSlice\<close>

text \<open>
  The object spread \<^verbatim>\<open>{ ...prevSliceState, ...sliceState }\<close>: the properties of the
  second object override those of the first.
\<close>

definition spread :: "('d, 'e) StoreSlice \<Rightarrow> ('d, 'e) sliceState \<Rightarrow> ('d, 'e) StoreSlice" where
  "spread prevSliceState st =
     \<lparr>data = (case set_data st of None \<Rightarrow> data prevSliceState | Some v \<Rightarrow> v),
      error = (case set_error st of None \<Rightarrow> error prevSliceState | Some v \<Rightarrow> v),
      loading = (case set_loading st of None \<Rightarrow> loading prevSliceState | Some v \<Rightarrow> v)\<rparr>"

text \<open>Lines 69 to 78: \<^verbatim>\<open>{ ...prevState, [key]: { ... } }\<close>.\<close>

definition updateSlice ::
  "('d, 'e) Store \<Rightarrow> SliceName \<Rightarrow> ('d, 'e) sliceState \<Rightarrow> ('d, 'e) Store" where
  "updateSlice prevState key st =
     (let prevSliceState = prevState key
      in prevState(key := spread prevSliceState st))"

subsection \<open>updateSlice on an explicit heap\<close>

text \<open>
  Object identity is not visible in the value model above, so the same function is also
  given over a heap of objects. An address is an index into the heap; an object literal
  allocates at the end and nothing is ever written to an existing address by
  \<^verbatim>\<open>updateSlice\<close>. A store object holds the addresses of its four slice objects.
\<close>

type_synonym addr = nat

datatype ('d, 'e) obj =
  SliceObj "('d, 'e) StoreSlice"
| StoreObj "SliceName \<Rightarrow> addr"

type_synonym ('d, 'e) heap = "('d, 'e) obj list"

definition deref :: "('d, 'e) heap \<Rightarrow> addr \<Rightarrow> ('d, 'e) obj option" where
  "deref h a = (if a < length h then Some (h ! a) else None)"

definition alloc :: "('d, 'e) heap \<Rightarrow> ('d, 'e) obj \<Rightarrow> ('d, 'e) heap \<times> addr" where
  "alloc h ob = (h @ [ob], length h)"

text \<open>
  Lines 69 to 78 on the heap. \<open>None\<close> is the \<^verbatim>\<open>TypeError\<close> of reading a property of
  something that is not a store or not a slice; a well-typed call never meets it.
\<close>

definition updateSlice_heap ::
  "('d, 'e) heap \<Rightarrow> addr \<Rightarrow> SliceName \<Rightarrow> ('d, 'e) sliceState \<Rightarrow> (('d, 'e) heap \<times> addr) option" where
  "updateSlice_heap h prevState key st =
     (case deref h prevState of
        Some (StoreObj refs) \<Rightarrow>
          (case deref h (refs key) of
             Some (SliceObj prevSliceState) \<Rightarrow>
               (let (h1, a) = alloc h (SliceObj (spread prevSliceState st));
                    (h2, s) = alloc h1 (StoreObj (refs(key := a)))
                in Some (h2, s))
           | _ \<Rightarrow> None)
      | _ \<Rightarrow> None)"

text \<open>The store value held at an address: every slice address dereferenced.\<close>

definition slice_at :: "('d, 'e) heap \<Rightarrow> addr \<Rightarrow> ('d, 'e) StoreSlice option" where
  "slice_at h a = (case deref h a of Some (SliceObj sl) \<Rightarrow> Some sl | _ \<Rightarrow> None)"

definition refs_at :: "('d, 'e) heap \<Rightarrow> addr \<Rightarrow> (SliceName \<Rightarrow> addr) option" where
  "refs_at h a = (case deref h a of Some (StoreObj refs) \<Rightarrow> Some refs | _ \<Rightarrow> None)"

definition store_at :: "('d, 'e) heap \<Rightarrow> addr \<Rightarrow> ('d, 'e) Store option" where
  "store_at h a =
     (case refs_at h a of
        None \<Rightarrow> None
      | Some refs \<Rightarrow>
          (if list_all (\<lambda>key. slice_at h (refs key) \<noteq> None) sliceNames
           then Some (\<lambda>key. the (slice_at h (refs key)))
           else None))"

text \<open>
  A heap holding the initial store: four empty slice objects at the addresses 0 to 3 and
  the store object at address 4.
\<close>

definition refs0 :: "SliceName \<Rightarrow> addr" where
  "refs0 key = (case key of config \<Rightarrow> 0 | status \<Rightarrow> 1 | graph \<Rightarrow> 2 | logs \<Rightarrow> 3)"

definition heap0 :: "(nat, string) heap" where
  "heap0 = [SliceObj emptySlice, SliceObj emptySlice, SliceObj emptySlice, SliceObj emptySlice,
            StoreObj refs0]"

subsection \<open>useApi: the state cell, fetch and the load actions\<close>

text \<open>
  \<^verbatim>\<open>const [store, setData] = useState<Store>(initialState)\<close> (line 82). The hook keeps
  one state cell. \<^verbatim>\<open>setData(prevState => f(prevState))\<close> replaces the cell's value
  by \<open>f\<close> of it, the updaters being applied in the order of the calls. The constant
  \<^verbatim>\<open>store\<close> of a render is the cell's value at that render: the closures created by that
  render keep it, and \<^verbatim>\<open>setData\<close> does not change it.

  The world is the state cell plus three records kept for the statements below:
  every updater call in order (\<open>updates\<close>), every value the cell has held, oldest first
  (\<open>states\<close>), the calls of a fetch function in order (\<open>invoked\<close>), and the calls of
  \<^verbatim>\<open>fetch\<close> suspended at their \<^verbatim>\<open>await\<close> (\<open>inflight\<close>).
\<close>

record ('d, 'e) world =
  cell :: "('d, 'e) Store"
  updates :: "(SliceName \<times> ('d, 'e) sliceState) list"
  states :: "('d, 'e) Store list"
  invoked :: "SliceName list"
  inflight :: "SliceName list"

definition initial_world :: "('d, 'e) world" where
  "initial_world =
     \<lparr>cell = initialState, updates = [], states = [initialState], invoked = [], inflight = []\<rparr>"

text \<open>\<^verbatim>\<open>setData(prevState => updateSlice(prevState, key, st))\<close>, the only form in the file.\<close>

definition setData :: "SliceName \<Rightarrow> ('d, 'e) sliceState \<Rightarrow> ('d, 'e) world \<Rightarrow> ('d, 'e) world" where
  "setData key st w =
     (let next = updateSlice (cell w) key st
      in w\<lparr>cell := next, updates := updates w @ [(key, st)], states := states w @ [next]\<rparr>)"

text \<open>
  \<^verbatim>\<open>fetch\<close> (lines 84 to 95) is an async function. Its call runs line 85 and the call
  \<^verbatim>\<open>fetchFn()\<close> of line 88, and suspends at the \<^verbatim>\<open>await\<close>: that is \<open>fetch_call\<close>.
\<close>

definition fetch_call :: "SliceName \<Rightarrow> ('d, 'e) world \<Rightarrow> ('d, 'e) world" where
  "fetch_call key w =
     (let w1 = setData key (loading_is True) w
      in w1\<lparr>invoked := invoked w1 @ [key], inflight := key # inflight w1\<rparr>)"

text \<open>
  When the awaited promise settles, the rest of the body runs without interruption:
  that is \<open>fetch_resume\<close>. The awaited result is \<open>Inr res\<close> when the promise resolves
  with \<open>res\<close> and \<open>Inl err\<close> when it rejects with \<open>err\<close>; a \<^verbatim>\<open>fetchFn\<close> that throws
  \<open>err\<close> before returning a promise reaches the same \<^verbatim>\<open>catch\<close> clause, with nothing
  running in between. The second component of the result is how the promise returned by
  \<^verbatim>\<open>fetch\<close> settles: \<open>None\<close> when it is fulfilled, \<open>Some err\<close> when it is rejected with
  \<open>err\<close>. Nothing outside the \<^verbatim>\<open>try\<close> block can throw.
\<close>

definition fetch_resume ::
  "SliceName \<Rightarrow> 'e + 'd \<Rightarrow> ('d, 'e) world \<Rightarrow> ('d, 'e) world \<times> 'e option" where
  "fetch_resume key awaited w =
     (let w1 = (case awaited of
                  Inr res \<Rightarrow> setData key (data_res res) w
                | Inl err \<Rightarrow> setData key (error_is err) w);
          w2 = setData key (loading_is False) w1
      in (w2\<lparr>inflight := remove1 key (inflight w2)\<rparr>, None))"

text \<open>
  Line 103, after the call: \<^verbatim>\<open>.catch(error => setData(... { error }))\<close> on the promise
  returned by \<^verbatim>\<open>fetch\<close>.
\<close>

definition settle :: "SliceName \<Rightarrow> 'e + 'd \<Rightarrow> ('d, 'e) world \<Rightarrow> ('d, 'e) world" where
  "settle key awaited w =
     (case fetch_resume key awaited w of
        (w', None) \<Rightarrow> w'
      | (w', Some err) \<Rightarrow> setData key (error_is err) w')"

text \<open>
  Modelled from the spec: the response types of \<^verbatim>\<open>../api/types\<close> are not in the file;
  the spec's data model has \<^verbatim>\<open>data: T | null\<close> with \<open>T\<close> a response object. An object is
  truthy in JavaScript and \<^verbatim>\<open>null\<close> is not, which is what \<^verbatim>\<open>data ||\<close> tests in line 100.
\<close>

definition truthy :: "'d option \<Rightarrow> bool" where
  "truthy d = (case d of None \<Rightarrow> False | Some v \<Rightarrow> True)"

text \<open>
  Lines 97 to 104. \<open>store\<close> is the constant of the render that created the closure
  (line 82), not the state cell.
\<close>

definition fetchOrReadFromStore ::
  "('d, 'e) Store \<Rightarrow> SliceName \<Rightarrow> bool \<Rightarrow> ('d, 'e) world \<Rightarrow> ('d, 'e) world" where
  "fetchOrReadFromStore store key force w =
     (let sl = store key
      in if \<not> force \<and> (truthy (data sl) \<or> loading sl) then w
         else fetch_call key w)"

text \<open>Lines 106 to 109.\<close>

definition loadLogs :: "('d, 'e) Store \<Rightarrow> bool \<Rightarrow> ('d, 'e) world \<Rightarrow> ('d, 'e) world" where
  "loadLogs store force = fetchOrReadFromStore store logs force"

definition loadConfig :: "('d, 'e) Store \<Rightarrow> bool \<Rightarrow> ('d, 'e) world \<Rightarrow> ('d, 'e) world" where
  "loadConfig store force = fetchOrReadFromStore store config force"

definition loadGraph :: "('d, 'e) Store \<Rightarrow> bool \<Rightarrow> ('d, 'e) world \<Rightarrow> ('d, 'e) world" where
  "loadGraph store force = fetchOrReadFromStore store graph force"

definition loadStatus :: "('d, 'e) Store \<Rightarrow> bool \<Rightarrow> ('d, 'e) world \<Rightarrow> ('d, 'e) world" where
  "loadStatus store force = fetchOrReadFromStore store status force"

subsection \<open>Runs of the store manager\<close>

text \<open>
  What can happen to the world: a load action of some closure is called (the closure
  carries the \<^verbatim>\<open>store\<close> constant of its render), or the promise awaited by a suspended
  \<^verbatim>\<open>fetch\<close> settles. A fetch that is not in flight cannot settle.
\<close>

datatype ('d, 'e) event =
  Load "('d, 'e) Store" SliceName bool
| Settle SliceName "'e + 'd"

fun step :: "('d, 'e) event \<Rightarrow> ('d, 'e) world \<Rightarrow> ('d, 'e) world option" where
  "step (Load store key force) w = Some (fetchOrReadFromStore store key force w)"
| "step (Settle key awaited) w =
     (if key \<in> set (inflight w) then Some (settle key awaited w) else None)"

fun run :: "('d, 'e) event list \<Rightarrow> ('d, 'e) world \<Rightarrow> ('d, 'e) world option" where
  "run [] w = Some w"
| "run (e # es) w = (case step e w of None \<Rightarrow> None | Some w' \<Rightarrow> run es w')"

inductive reachable :: "('d, 'e) world \<Rightarrow> bool" where
  reachable_start: "reachable initial_world"
| reachable_step: "reachable w \<Longrightarrow> step e w = Some w' \<Longrightarrow> reachable w'"

subsection \<open>Predicates on worlds and histories\<close>

text \<open>Every slice that is loading has a fetch in flight.\<close>

definition tracked :: "('d, 'e) world \<Rightarrow> bool" where
  "tracked w = list_all (\<lambda>key. loading (cell w key) \<longrightarrow> key \<in> set (inflight w)) sliceNames"

text \<open>
  A replacement of the store by the next one is clean when every slice whose \<open>data\<close>
  differs from before has \<open>error\<close> null afterwards; a history is clean when each of its
  replacements is.
\<close>

definition clean_step :: "('d, 'e) Store \<Rightarrow> ('d, 'e) Store \<Rightarrow> bool" where
  "clean_step s s' =
     list_all (\<lambda>key. data (s' key) \<noteq> data (s key) \<longrightarrow> error (s' key) = None) sliceNames"

fun clean_history :: "('d, 'e) Store list \<Rightarrow> bool" where
  "clean_history (s # s' # ss) = (clean_step s s' \<and> clean_history (s' # ss))"
| "clean_history ss = True"

text \<open>The last recorded state is the state cell, and the history is clean.\<close>

definition recorded :: "('d, 'e) world \<Rightarrow> bool" where
  "recorded w = (states w \<noteq> [] \<and> last (states w) = cell w \<and> clean_history (states w))"

text \<open>
  Worlds of a run used as examples: \<^verbatim>\<open>loadConfig()\<close> on the initial store, its fetch
  rejected with a timeout, then \<^verbatim>\<open>loadConfig(true)\<close> from the re-rendered store.
\<close>

definition world1 :: "(nat, string) world" where
  "world1 = fetchOrReadFromStore initialState config False initial_world"

definition world2 :: "(nat, string) world" where
  "world2 = settle config (Inl ''timeout'') world1"

definition world3 :: "(nat, string) world" where
  "world3 = fetchOrReadFromStore (cell world2) config True world2"

text \<open>The first fetch resolved with a value: the state cell holds cached data.\<close>

definition world4 :: "(nat, string) world" where
  "world4 = settle config (Inr 1) world1"

subsection \<open>setData calls that throw\<close>











section \<open>Properties\<close>

subsection \<open>Basic facts\<close>

lemma updateSlice_same: "updateSlice prevState key st key = spread (prevState key) st"
  by (simp add: updateSlice_def Let_def)

lemma updateSlice_other: "k \<noteq> key \<Longrightarrow> updateSlice prevState key st k = prevState k"
  by (simp add: updateSlice_def Let_def)

lemma initialState_key: "initialState key = emptySlice"
  by (cases key) (simp_all add: initialState_def sliceNames_def)

lemma cell_setData [simp]: "cell (setData key st w) = updateSlice (cell w) key st"
  and updates_setData [simp]: "updates (setData key st w) = updates w @ [(key, st)]"
  and states_setData [simp]: "states (setData key st w) = states w @ [updateSlice (cell w) key st]"
  and invoked_setData [simp]: "invoked (setData key st w) = invoked w"
  and inflight_setData [simp]: "inflight (setData key st w) = inflight w"
  by (simp_all add: setData_def Let_def)

lemma settle_eq: "settle key awaited w = fst (fetch_resume key awaited w)"
  by (simp add: settle_def fetch_resume_def Let_def)

subsection \<open>The guard of the load actions\<close>

text \<open>
  The guard of line 100 is a test on \<^verbatim>\<open>store\<close>, the constant of the closure: the fetch
  function is called exactly when \<open>force\<close> is true, or that store has \<open>data\<close> null and
  \<open>loading\<close> false for the slice; otherwise the world is left as it was. The state cell
  plays no part in the test.
\<close>

lemma guard_on_closure_store:
  "invoked (fetchOrReadFromStore store key force w) =
     invoked w @ (if force \<or> (data (store key) = None \<and> \<not> loading (store key)) then [key] else []) \<and>
   (\<not> (force \<or> (data (store key) = None \<and> \<not> loading (store key))) \<longrightarrow>
      fetchOrReadFromStore store key force w = w)"
  by (auto simp: fetchOrReadFromStore_def fetch_call_def truthy_def Let_def split: option.splits)

subsection \<open>The outcome of a fetch\<close>

text \<open>
  C2. When the fetch function of a slice resolves with \<open>V\<close>, the slice is
  \<open>{data: V, error: null, loading: false}\<close> once the rest of \<^verbatim>\<open>fetch\<close> has run, whatever
  the state cell held when the promise settled.
\<close>

theorem fetch_success_final_slice:
  "cell (settle key (Inr V) w) key = \<lparr>data = Some V, error = None, loading = False\<rparr>"
  by (simp add: settle_eq fetch_resume_def Let_def updateSlice_same spread_def
      data_res_def loading_is_def)

text \<open>
  C3. When the fetch function of a slice rejects with \<open>E\<close>, the slice ends with the
  \<open>data\<close> it had, \<open>error\<close> \<open>E\<close> and \<open>loading\<close> false: the rest of \<^verbatim>\<open>fetch\<close> leaves \<open>data\<close>
  as it finds it, and so does the whole of a fetch that nothing else interleaves with.
\<close>

theorem fetch_failure_final_slice:
  "cell (settle key (Inl E) w) key =
     \<lparr>data = data (cell w key), error = Some E, loading = False\<rparr> \<and>
   cell (settle key (Inl E) (fetch_call key w)) key =
     \<lparr>data = data (cell w key), error = Some E, loading = False\<rparr>"
  by (simp add: settle_eq fetch_resume_def fetch_call_def Let_def updateSlice_same spread_def
      error_is_def loading_is_def)

subsection \<open>updateSlice\<close>

text \<open>
  C4. \<^verbatim>\<open>updateSlice\<close> returns a store that agrees with the input store on every slice but
  the named one, and whose named slice is the shallow merge: each field is the partial's
  value when the partial has the field, and the previous value when it has not.
\<close>

theorem updateSlice_shallow_merge:
  "(\<forall>k. k \<noteq> key \<longrightarrow> updateSlice prevState key st k = prevState k) \<and>
   data (updateSlice prevState key st key) =
     (case set_data st of Some v \<Rightarrow> v | None \<Rightarrow> data (prevState key)) \<and>
   error (updateSlice prevState key st key) =
     (case set_error st of Some v \<Rightarrow> v | None \<Rightarrow> error (prevState key)) \<and>
   loading (updateSlice prevState key st key) =
     (case set_loading st of Some v \<Rightarrow> v | None \<Rightarrow> loading (prevState key))"
  by (simp add: updateSlice_def Let_def spread_def split: option.splits)

theorem updateSlice_shallow_merge_witness:
  "updateSlice (initialState :: (nat, string) Store) config
      \<lparr>set_data = Some (Some 1), set_error = None, set_loading = None\<rparr> status = initialState status \<and>
   data (updateSlice (initialState :: (nat, string) Store) config
      \<lparr>set_data = Some (Some 1), set_error = None, set_loading = None\<rparr> config) = Some 1 \<and>
   error (updateSlice (initialState :: (nat, string) Store) config
      \<lparr>set_data = Some (Some 1), set_error = None, set_loading = None\<rparr> config) = None \<and>
   loading (updateSlice (initialState :: (nat, string) Store) config
      \<lparr>set_data = Some (Some 1), set_error = None, set_loading = None\<rparr> config) = False"
  using updateSlice_shallow_merge [of config "initialState :: (nat, string) Store"
      "\<lparr>set_data = Some (Some 1), set_error = None, set_loading = None\<rparr>"]
  by (simp add: initialState_key emptySlice_def)

subsection \<open>updateSlice and object identity\<close>

lemma list_all_sliceNames: "list_all P sliceNames = (\<forall>key. P key)"
proof
  assume a: "list_all P sliceNames"
  show "\<forall>key. P key"
  proof
    fix key show "P key" using a by (cases key) (simp_all add: sliceNames_def)
  qed
next
  assume "\<forall>key. P key"
  then show "list_all P sliceNames" by (simp add: sliceNames_def)
qed

lemma deref_append: "a < length h \<Longrightarrow> deref (h @ xs) a = deref h a"
  by (simp add: deref_def nth_append)

lemma slice_at_append: "slice_at h a = Some sl \<Longrightarrow> slice_at (h @ xs) a = Some sl"
  by (auto simp: slice_at_def deref_def nth_append split: if_splits option.splits obj.splits)

lemma refs_at_append: "refs_at h a = Some refs \<Longrightarrow> refs_at (h @ xs) a = Some refs"
  by (auto simp: refs_at_def deref_def nth_append split: if_splits option.splits obj.splits)

lemma store_atD:
  assumes "store_at h p = Some s"
  shows "\<exists>refs. refs_at h p = Some refs \<and> (\<forall>key. slice_at h (refs key) = Some (s key))"
proof -
  from assms obtain refs where r: "refs_at h p = Some refs"
    and a: "\<forall>key. slice_at h (refs key) \<noteq> None"
    and s: "s = (\<lambda>key. the (slice_at h (refs key)))"
    by (auto simp: store_at_def list_all_sliceNames split: option.splits if_splits)
  have "slice_at h (refs key) = Some (s key)" for key
  proof -
    from a have "slice_at h (refs key) \<noteq> None" by blast
    then show ?thesis by (auto simp: s)
  qed
  with r show ?thesis by blast
qed

lemma store_atI:
  assumes "refs_at h p = Some refs" and "\<And>key. slice_at h (refs key) = Some (s key)"
  shows "store_at h p = Some s"
  using assms by (simp add: store_at_def list_all_sliceNames)

lemma store_at_append:
  assumes "store_at h p = Some s"
  shows "store_at (h @ xs) p = Some s"
proof -
  from store_atD [OF assms] obtain refs where r: "refs_at h p = Some refs"
    and sl: "\<And>key. slice_at h (refs key) = Some (s key)"
    by blast
  show ?thesis
    by (rule store_atI [where refs = refs]) (simp_all add: refs_at_append [OF r] slice_at_append [OF sl])
qed

text \<open>
  C5. \<^verbatim>\<open>updateSlice\<close> does not write to its input: on a heap where the address \<open>p\<close> holds
  a store, the call succeeds, every object that existed before the call is the same
  after it (so the input store still reads as it did), and the store object it returns
  holds, for each of the three other keys, the very address the input store object
  holds; the named key gets a freshly allocated slice. The returned store reads as the
  value-level \<^verbatim>\<open>updateSlice\<close> says.
\<close>

theorem updateSlice_heap_frame:
  assumes "store_at h p = Some s"
  shows "\<exists>h' p'. updateSlice_heap h p key st = Some (h', p') \<and>
           (\<forall>a. a < length h \<longrightarrow> deref h' a = deref h a) \<and>
           store_at h' p = Some s \<and>
           (\<exists>refs refs'. refs_at h p = Some refs \<and> refs_at h' p' = Some refs' \<and>
              (\<forall>k. k \<noteq> key \<longrightarrow> refs' k = refs k) \<and> length h \<le> refs' key) \<and>
           store_at h' p' = Some (updateSlice s key st)"
proof -
  from store_atD [OF assms] obtain refs where r: "refs_at h p = Some refs"
    and sl: "\<And>k. slice_at h (refs k) = Some (s k)"
    by blast
  define h' where "h' = h @ [SliceObj (spread (s key) st), StoreObj (refs(key := length h))]"
  define p' where "p' = Suc (length h)"
  have dp: "deref h p = Some (StoreObj refs)"
    using r by (auto simp: refs_at_def split: option.splits obj.splits)
  have dk: "deref h (refs key) = Some (SliceObj (s key))"
    using sl [of key] by (auto simp: slice_at_def split: option.splits obj.splits)
  have run: "updateSlice_heap h p key st = Some (h', p')"
    by (simp add: updateSlice_heap_def dp dk alloc_def h'_def p'_def)
  have frame: "\<forall>a. a < length h \<longrightarrow> deref h' a = deref h a"
    by (simp add: h'_def deref_append)
  have old: "store_at h' p = Some s"
    unfolding h'_def using assms by (rule store_at_append)
  have r': "refs_at h' p' = Some (refs(key := length h))"
    by (simp add: refs_at_def deref_def h'_def p'_def nth_append)
  have new_slice: "slice_at h' (length h) = Some (spread (s key) st)"
    by (simp add: slice_at_def deref_def h'_def nth_append)
  have "slice_at h' ((refs(key := length h)) k) = Some (updateSlice s key st k)" for k
  proof (cases "k = key")
    case True
    then show ?thesis by (simp add: new_slice updateSlice_same)
  next
    case False
    then show ?thesis
      using slice_at_append [OF sl [of k]] by (simp add: h'_def updateSlice_other)
  qed
  with r' have new: "store_at h' p' = Some (updateSlice s key st)"
    by (rule store_atI)
  have same: "\<exists>refs refs'. refs_at h p = Some refs \<and> refs_at h' p' = Some refs' \<and>
      (\<forall>k. k \<noteq> key \<longrightarrow> refs' k = refs k) \<and> length h \<le> refs' key"
    using r r' by simp
  from run frame old same new show ?thesis by blast
qed

theorem updateSlice_heap_frame_witness:
  "store_at heap0 4 = Some initialState \<and>
   (\<exists>h' p'. updateSlice_heap heap0 4 config (loading_is True) = Some (h', p') \<and>
      deref h' 0 = deref heap0 0 \<and>
      store_at h' 4 = Some initialState \<and>
      (\<exists>refs refs'. refs_at heap0 4 = Some refs \<and> refs_at h' p' = Some refs' \<and>
          refs' status = refs status \<and> refs' graph = refs graph \<and> refs' logs = refs logs) \<and>
      store_at h' p' = Some (updateSlice initialState config (loading_is True)))"
proof -
  have "slice_at heap0 (refs0 key) = Some (initialState key)" for key
    by (cases key) (simp_all add: slice_at_def deref_def heap0_def refs0_def initialState_key)
  then have s: "store_at heap0 4 = Some initialState"
    by (intro store_atI [where refs = refs0]) (simp_all add: refs_at_def deref_def heap0_def)
  have len: "(0::nat) < length heap0" by (simp add: heap0_def)
  from updateSlice_heap_frame [OF s, of config "loading_is True"]
  obtain h' p' refs refs' where
    "updateSlice_heap heap0 4 config (loading_is True) = Some (h', p')"
    "\<forall>a. a < length heap0 \<longrightarrow> deref h' a = deref heap0 a"
    "store_at h' 4 = Some initialState"
    "refs_at heap0 4 = Some refs" "refs_at h' p' = Some refs'"
    "\<forall>k. k \<noteq> config \<longrightarrow> refs' k = refs k"
    "store_at h' p' = Some (updateSlice initialState config (loading_is True))"
    by blast
  with s len show ?thesis by auto
qed

subsection \<open>Two calls of one load action\<close>

text \<open>
  C6. Two calls of \<^verbatim>\<open>loadConfig()\<close> in succession, the second before the fetch of the
  first has settled, should reach the fetch function once. Evaluated on the code: both
  calls are made through the same closure, whose \<^verbatim>\<open>store\<close> is the initial one; after the
  first call the fetch is in flight, and the second call invokes the fetch function again.
\<close>

theorem loadConfig_twice_same_closure:
  "invoked (loadConfig initialState False (loadConfig initialState False initial_world)) = [config, config] \<and>
   inflight (loadConfig initialState False initial_world) = [config]"
  by (simp add: loadConfig_def fetchOrReadFromStore_def fetch_call_def Let_def initialState_key
      emptySlice_def truthy_def initial_world_def)

text \<open>
  Through a closure of a later render, whose \<^verbatim>\<open>store\<close> is the state cell after the first
  call, the second call does not fetch.
\<close>

lemma loadConfig_after_render:
  "invoked (loadConfig (cell (loadConfig initialState False initial_world)) False
      (loadConfig initialState False initial_world)) = [config]"
  by (simp add: loadConfig_def fetchOrReadFromStore_def fetch_call_def Let_def initialState_key
      emptySlice_def truthy_def initial_world_def updateSlice_same spread_def loading_is_def)

subsection \<open>The loading flag\<close>

lemma tracked_iff: "tracked w = (\<forall>key. loading (cell w key) \<longrightarrow> key \<in> set (inflight w))"
  by (simp add: tracked_def list_all_sliceNames)

lemma cell_fetch_call: "cell (fetch_call key w) = updateSlice (cell w) key (loading_is True)"
  and inflight_fetch_call: "inflight (fetch_call key w) = key # inflight w"
  by (simp_all add: fetch_call_def Let_def)

lemma cell_settle:
  "cell (settle key awaited w) =
     updateSlice (updateSlice (cell w) key
        (case awaited of Inr res \<Rightarrow> data_res res | Inl err \<Rightarrow> error_is err)) key (loading_is False)"
  and inflight_settle: "inflight (settle key awaited w) = remove1 key (inflight w)"
  by (cases awaited; simp add: settle_eq fetch_resume_def Let_def)+

lemma loading_settle_same: "\<not> loading (cell (settle key awaited w) key)"
  by (simp add: cell_settle updateSlice_same spread_def loading_is_def)

lemma tracked_fetch_call: "tracked w \<Longrightarrow> tracked (fetch_call key w)"
  unfolding tracked_iff
proof (intro allI impI)
  fix k
  assume inv: "\<forall>key. loading (cell w key) \<longrightarrow> key \<in> set (inflight w)"
    and l: "loading (cell (fetch_call key w) k)"
  show "k \<in> set (inflight (fetch_call key w))"
  proof (cases "k = key")
    case True
    then show ?thesis by (simp add: inflight_fetch_call)
  next
    case False
    with l have "loading (cell w k)" by (simp add: cell_fetch_call updateSlice_other)
    with inv show ?thesis by (simp add: inflight_fetch_call)
  qed
qed

lemma tracked_settle: "tracked w \<Longrightarrow> tracked (settle key awaited w)"
  unfolding tracked_iff
proof (intro allI impI)
  fix k
  assume inv: "\<forall>key. loading (cell w key) \<longrightarrow> key \<in> set (inflight w)"
    and l: "loading (cell (settle key awaited w) k)"
  from l loading_settle_same [of key awaited w] have ne: "k \<noteq> key" by auto
  with l have "loading (cell w k)" by (simp add: cell_settle updateSlice_other)
  with inv have "k \<in> set (inflight w)" by blast
  with ne show "k \<in> set (inflight (settle key awaited w))"
    by (simp add: inflight_settle)
qed

lemma tracked_step: "tracked w \<Longrightarrow> step e w = Some w' \<Longrightarrow> tracked w'"
  by (cases e) (auto simp: fetchOrReadFromStore_def Let_def tracked_fetch_call tracked_settle
      split: if_splits)

lemma tracked_initial: "tracked initial_world"
  by (simp add: tracked_iff initial_world_def initialState_key emptySlice_def)

lemma reachable_tracked: "reachable w \<Longrightarrow> tracked w"
  by (induction rule: reachable.induct) (auto intro: tracked_initial tracked_step)

lemma run_reachable: "reachable w \<Longrightarrow> run es w = Some w' \<Longrightarrow> reachable w'"
proof (induction es arbitrary: w)
  case Nil
  then show ?case by simp
next
  case (Cons e es)
  from Cons.prems(2) obtain w1 where s: "step e w = Some w1" and r: "run es w1 = Some w'"
    by (auto split: option.splits)
  from Cons.prems(1) s have "reachable w1" by (rule reachable_step)
  then show ?case using r by (rule Cons.IH)
qed

lemma inflight_world1: "inflight world1 = [config]"
  by (simp add: world1_def fetchOrReadFromStore_def Let_def initialState_key emptySlice_def
      truthy_def inflight_fetch_call initial_world_def)

lemma reachable_world1: "reachable world1"
  unfolding world1_def
  by (rule reachable_step [OF reachable_start, where e = "Load initialState config False"]) simp

lemma reachable_world2: "reachable world2"
  unfolding world2_def
  by (rule reachable_step [OF reachable_world1, where e = "Settle config (Inl ''timeout'')"])
     (simp add: inflight_world1)

lemma inflight_world3: "inflight world3 = [config]"
  by (simp add: world3_def world2_def fetchOrReadFromStore_def Let_def inflight_fetch_call
      inflight_settle inflight_world1)

lemma reachable_world3: "reachable world3"
  unfolding world3_def
  by (rule reachable_step [OF reachable_world2, where e = "Load (cell world2) config True"]) simp

text \<open>
  C9. In every reachable world a slice that is loading has a fetch in flight. A fetch in
  flight can settle, with either outcome; the rest of \<^verbatim>\<open>fetch\<close> then applies exactly one
  update of \<open>loading\<close>, which sets it to false, the slice is not loading afterwards, and
  one fetch fewer is in flight.
\<close>

theorem loading_implies_inflight:
  assumes "reachable w"
  shows "(\<forall>key. loading (cell w key) \<longrightarrow> key \<in> set (inflight w)) \<and>
         (\<forall>key awaited. key \<in> set (inflight w) \<longrightarrow>
            step (Settle key awaited) w = Some (settle key awaited w) \<and>
            \<not> loading (cell (settle key awaited w) key) \<and>
            filter (\<lambda>u. set_loading (snd u) \<noteq> None)
               (drop (length (updates w)) (updates (settle key awaited w))) =
              [(key, \<lparr>set_data = None, set_error = None, set_loading = Some False\<rparr>)] \<and>
            Suc (length (inflight (settle key awaited w))) = length (inflight w))"
proof (intro conjI allI impI)
  fix key
  assume "loading (cell w key)"
  with reachable_tracked [OF assms] show "key \<in> set (inflight w)"
    by (simp add: tracked_iff)
next
  fix key :: SliceName and awaited :: "'b + 'a"
  assume k: "key \<in> set (inflight w)"
  then show "step (Settle key awaited) w = Some (settle key awaited w)" by simp
  show "\<not> loading (cell (settle key awaited w) key)" by (rule loading_settle_same)
  show "filter (\<lambda>u. set_loading (snd u) \<noteq> None)
               (drop (length (updates w)) (updates (settle key awaited w))) =
              [(key, \<lparr>set_data = None, set_error = None, set_loading = Some False\<rparr>)]"
    by (cases awaited)
       (simp_all add: settle_eq fetch_resume_def Let_def loading_is_def data_res_def error_is_def
          del: not_None_eq)
  from k have "0 < length (inflight w)" by (cases "inflight w") auto
  with k show "Suc (length (inflight (settle key awaited w))) = length (inflight w)"
    by (simp add: inflight_settle length_remove1)
qed

theorem loading_implies_inflight_witness:
  "reachable world1 \<and> loading (cell world1 config) \<and> config \<in> set (inflight world1) \<and>
   step (Settle config (Inr 1)) world1 = Some (settle config (Inr 1) world1) \<and>
   \<not> loading (cell (settle config (Inr 1) world1) config) \<and>
   length (inflight (settle config (Inr 1) world1)) = 0"
proof -
  have l: "loading (cell world1 config)"
    by (simp add: world1_def fetchOrReadFromStore_def Let_def initialState_key emptySlice_def
        truthy_def cell_fetch_call updateSlice_same spread_def loading_is_def)
  from loading_implies_inflight [OF reachable_world1] l reachable_world1 show ?thesis
    by (simp add: inflight_world1)
qed

subsection \<open>Data and error are replaced together\<close>

lemma clean_history_snoc:
  "ss \<noteq> [] \<Longrightarrow> clean_history (ss @ [s]) = (clean_history ss \<and> clean_step (last ss) s)"
  by (induction ss rule: clean_history.induct) auto

lemma clean_step_updateSlice:
  assumes "set_data st = None \<or> set_error st = Some None"
  shows "clean_step s (updateSlice s key st)"
  unfolding clean_step_def list_all_sliceNames
proof (intro allI impI)
  fix k
  assume d: "data (updateSlice s key st k) \<noteq> data (s k)"
  then have k: "k = key" by (cases "k = key") (simp_all add: updateSlice_other)
  with d have "set_data st \<noteq> None"
    by (cases "set_data st") (simp_all add: updateSlice_same spread_def)
  with assms have "set_error st = Some None" by simp
  with k show "error (updateSlice s key st k) = None" by (simp add: updateSlice_same spread_def)
qed

lemma recorded_setData:
  assumes "recorded w" and "set_data st = None \<or> set_error st = Some None"
  shows "recorded (setData key st w)"
  using assms(1) clean_step_updateSlice [of st "cell w" key, OF assms(2)]
  by (simp add: recorded_def clean_history_snoc)

lemma recorded_fields:
  "recorded (w\<lparr>invoked := xs\<rparr>) = recorded w" "recorded (w\<lparr>inflight := ys\<rparr>) = recorded w"
  by (simp_all add: recorded_def)

lemma recorded_fetch_call: "recorded w \<Longrightarrow> recorded (fetch_call key w)"
  by (simp add: fetch_call_def Let_def recorded_fields recorded_setData loading_is_def)

lemma recorded_settle: "recorded w \<Longrightarrow> recorded (settle key awaited w)"
  by (cases awaited)
     (simp_all add: settle_eq fetch_resume_def Let_def recorded_fields recorded_setData
        loading_is_def data_res_def error_is_def)

lemma recorded_step: "recorded w \<Longrightarrow> step e w = Some w' \<Longrightarrow> recorded w'"
  by (cases e) (auto simp: fetchOrReadFromStore_def Let_def recorded_fetch_call recorded_settle
      split: if_splits)

lemma recorded_initial: "recorded initial_world"
  by (simp add: recorded_def initial_world_def)

lemma reachable_recorded: "reachable w \<Longrightarrow> recorded w"
  by (induction rule: reachable.induct) (auto intro: recorded_initial recorded_step)

text \<open>
  C10. In every reachable world the history of the store is clean: no replacement of the
  store gives a slice new \<open>data\<close> and leaves it an \<open>error\<close>. A successful fetch applies
  \<open>data\<close> and \<open>error: null\<close> in one update; the two states that follow both hold the
  fetched value and no error.
\<close>

theorem success_replaces_data_and_error_together:
  assumes "reachable w"
  shows "clean_history (states w) \<and>
         (\<forall>key V. \<exists>s1 s2.
            states (settle key (Inr V) w) = states w @ [s1, s2] \<and>
            data (s1 key) = Some V \<and> error (s1 key) = None \<and>
            data (s2 key) = Some V \<and> error (s2 key) = None \<and>
            updates (settle key (Inr V) w) =
              updates w @
                [(key, \<lparr>set_data = Some (Some V), set_error = Some None, set_loading = None\<rparr>),
                 (key, \<lparr>set_data = None, set_error = None, set_loading = Some False\<rparr>)])"
proof
  from reachable_recorded [OF assms] show "clean_history (states w)"
    by (simp add: recorded_def)
  show "\<forall>key V. \<exists>s1 s2.
            states (settle key (Inr V) w) = states w @ [s1, s2] \<and>
            data (s1 key) = Some V \<and> error (s1 key) = None \<and>
            data (s2 key) = Some V \<and> error (s2 key) = None \<and>
            updates (settle key (Inr V) w) =
              updates w @
                [(key, \<lparr>set_data = Some (Some V), set_error = Some None, set_loading = None\<rparr>),
                 (key, \<lparr>set_data = None, set_error = None, set_loading = Some False\<rparr>)]"
    by (simp add: settle_eq fetch_resume_def Let_def updateSlice_same spread_def
        data_res_def loading_is_def)
qed

theorem success_replaces_data_and_error_together_witness:
  "reachable world3 \<and> error (cell world3 config) = Some ''timeout'' \<and>
   clean_history (states (settle config (Inr 1) world3)) \<and>
   cell (settle config (Inr 1) world3) config = \<lparr>data = Some 1, error = None, loading = False\<rparr>"
proof -
  have r: "reachable (settle config (Inr 1) world3)"
    by (rule reachable_step [OF reachable_world3, where e = "Settle config (Inr 1)"])
       (simp add: inflight_world3)
  have e: "error (cell world3 config) = Some ''timeout''"
    by (simp add: world3_def world2_def fetchOrReadFromStore_def Let_def cell_fetch_call
        cell_settle updateSlice_same spread_def loading_is_def error_is_def)
  from success_replaces_data_and_error_together [OF r] reachable_world3 e show ?thesis
    by (simp add: cell_settle updateSlice_same spread_def loading_is_def data_res_def)
qed


subsection \<open>The guard and the state cell\<close>

lemma cell_world1: "cell world1 config = \<lparr>data = None, error = None, loading = True\<rparr>"
  by (simp add: world1_def fetchOrReadFromStore_def Let_def initialState_key emptySlice_def
      truthy_def cell_fetch_call updateSlice_same spread_def loading_is_def initial_world_def)

lemma reachable_world4: "reachable world4"
  unfolding world4_def
  by (rule reachable_step [OF reachable_world1, where e = "Settle config (Inr 1)"])
     (simp add: inflight_world1)

text \<open>
  C1. A load action without \<open>force\<close> should fetch only when the slice has \<open>data\<close> null
  and is not loading, and otherwise call no fetch function and leave the store as it is.
  Evaluated on the code, for an action of the first render, whose \<^verbatim>\<open>store\<close> is the
  initial one: with the slice loading in the state cell (a fetch in flight) it calls the
  fetch function again; with data cached in the state cell it calls the fetch function
  again and sets the slice loading.
\<close>

theorem load_guard_reads_stale_store:
  "reachable world1 \<and> loading (cell world1 config) \<and>
   invoked (loadConfig initialState False world1) = invoked world1 @ [config] \<and>
   loadConfig initialState False world1 \<noteq> world1 \<and>
   reachable world4 \<and>
   cell world4 config = \<lparr>data = Some 1, error = None, loading = False\<rparr> \<and>
   invoked (loadConfig initialState False world4) = invoked world4 @ [config] \<and>
   cell (loadConfig initialState False world4) config =
     \<lparr>data = Some 1, error = None, loading = True\<rparr>"
proof -
  have a: "invoked (loadConfig initialState False w) = invoked w @ [config]"
    for w :: "(nat, string) world"
    by (simp add: loadConfig_def fetchOrReadFromStore_def Let_def initialState_key emptySlice_def
        truthy_def fetch_call_def)
  from a [of world1] have b: "loadConfig initialState False world1 \<noteq> world1"
    by auto
  have c: "cell world4 config = \<lparr>data = Some 1, error = None, loading = False\<rparr>"
    by (simp add: world4_def cell_settle updateSlice_same spread_def data_res_def loading_is_def)
  have d: "cell (loadConfig initialState False world4) config =
     \<lparr>data = Some 1, error = None, loading = True\<rparr>"
    by (simp add: loadConfig_def fetchOrReadFromStore_def Let_def initialState_key emptySlice_def
        truthy_def cell_fetch_call updateSlice_same spread_def loading_is_def c)
  show ?thesis
    using reachable_world1 reachable_world4 a b c d by (simp add: cell_world1)
qed

subsection \<open>The updates of one fetch\<close>

lemma updateSlice_upd:
  "updateSlice s key st = s(key := spread (s key) st)"
  by (simp add: updateSlice_def Let_def)

lemma spread_loading_is: "spread sl (loading_is b) = sl\<lparr>loading := b\<rparr>"
  by (simp add: spread_def loading_is_def)

lemma spread_data_res: "spread sl (data_res res) = sl\<lparr>data := Some res, error := None\<rparr>"
  by (simp add: spread_def data_res_def)

lemma spread_error_is: "spread sl (error_is err) = sl\<lparr>error := Some err\<rparr>"
  by (simp add: spread_def error_is_def)

lemma states_fetch_call:
  "states (fetch_call key w) = states w @ [updateSlice (cell w) key (loading_is True)]"
  and updates_fetch_call: "updates (fetch_call key w) = updates w @ [(key, loading_is True)]"
  by (simp_all add: fetch_call_def Let_def)

lemma states_settle:
  "states (settle key awaited w) =
     states w @
       [updateSlice (cell w) key (case awaited of Inr res \<Rightarrow> data_res res | Inl err \<Rightarrow> error_is err),
        updateSlice (updateSlice (cell w) key
           (case awaited of Inr res \<Rightarrow> data_res res | Inl err \<Rightarrow> error_is err)) key (loading_is False)]"
  and updates_settle:
  "updates (settle key awaited w) =
     updates w @
       [(key, case awaited of Inr res \<Rightarrow> data_res res | Inl err \<Rightarrow> error_is err),
        (key, loading_is False)]"
  by (cases awaited; simp add: settle_eq fetch_resume_def Let_def)+

text \<open>
  C7. A fetch applies three updates to the store, in this order. Its call replaces the
  store by one whose slice has \<open>loading\<close> true and \<open>data\<close> and \<open>error\<close> as before. When the
  awaited promise settles, the store is replaced by one whose slice has the outcome
  (\<open>data\<close> and \<open>error\<close> null, or \<open>error\<close>), and that one by one whose slice has \<open>loading\<close>
  false, which is the state cell afterwards. No other slice changes. With nothing
  interleaved the three replacements are consecutive.
\<close>

theorem fetch_three_updates_in_order:
  "(let s0 = cell w;
        s1 = s0(key := (s0 key)\<lparr>loading := True\<rparr>)
    in cell (fetch_call key w) = s1 \<and>
       states (fetch_call key w) = states w @ [s1] \<and>
       updates (fetch_call key w) =
         updates w @ [(key, \<lparr>set_data = None, set_error = None, set_loading = Some True\<rparr>)]) \<and>
   (let t0 = cell w';
        t1 = t0(key := (case awaited of
                          Inr res \<Rightarrow> (t0 key)\<lparr>data := Some res, error := None\<rparr>
                        | Inl err \<Rightarrow> (t0 key)\<lparr>error := Some err\<rparr>));
        t2 = t1(key := (t1 key)\<lparr>loading := False\<rparr>)
    in cell (settle key awaited w') = t2 \<and>
       states (settle key awaited w') = states w' @ [t1, t2] \<and>
       updates (settle key awaited w') =
         updates w' @
           [(key, case awaited of
                    Inr res \<Rightarrow> \<lparr>set_data = Some (Some res), set_error = Some None, set_loading = None\<rparr>
                  | Inl err \<Rightarrow> \<lparr>set_data = None, set_error = Some (Some err), set_loading = None\<rparr>),
            (key, \<lparr>set_data = None, set_error = None, set_loading = Some False\<rparr>)]) \<and>
   (let s0 = cell w;
        s1 = s0(key := (s0 key)\<lparr>loading := True\<rparr>);
        s2 = s1(key := (case awaited of
                          Inr res \<Rightarrow> (s1 key)\<lparr>data := Some res, error := None\<rparr>
                        | Inl err \<Rightarrow> (s1 key)\<lparr>error := Some err\<rparr>));
        s3 = s2(key := (s2 key)\<lparr>loading := False\<rparr>)
    in cell (settle key awaited (fetch_call key w)) = s3 \<and>
       states (settle key awaited (fetch_call key w)) = states w @ [s1, s2, s3] \<and>
       updates (settle key awaited (fetch_call key w)) =
         updates w @
           [(key, \<lparr>set_data = None, set_error = None, set_loading = Some True\<rparr>),
            (key, case awaited of
                    Inr res \<Rightarrow> \<lparr>set_data = Some (Some res), set_error = Some None, set_loading = None\<rparr>
                  | Inl err \<Rightarrow> \<lparr>set_data = None, set_error = Some (Some err), set_loading = None\<rparr>),
            (key, \<lparr>set_data = None, set_error = None, set_loading = Some False\<rparr>)])"
proof (intro conjI)
  show "let s0 = cell w;
        s1 = s0(key := (s0 key)\<lparr>loading := True\<rparr>)
    in cell (fetch_call key w) = s1 \<and>
       states (fetch_call key w) = states w @ [s1] \<and>
       updates (fetch_call key w) =
         updates w @ [(key, \<lparr>set_data = None, set_error = None, set_loading = Some True\<rparr>)]"
    by (simp add: Let_def cell_fetch_call states_fetch_call updates_fetch_call updateSlice_upd
        spread_loading_is) (simp add: loading_is_def)
next
  show "let t0 = cell w';
        t1 = t0(key := (case awaited of
                          Inr res \<Rightarrow> (t0 key)\<lparr>data := Some res, error := None\<rparr>
                        | Inl err \<Rightarrow> (t0 key)\<lparr>error := Some err\<rparr>));
        t2 = t1(key := (t1 key)\<lparr>loading := False\<rparr>)
    in cell (settle key awaited w') = t2 \<and>
       states (settle key awaited w') = states w' @ [t1, t2] \<and>
       updates (settle key awaited w') =
         updates w' @
           [(key, case awaited of
                    Inr res \<Rightarrow> \<lparr>set_data = Some (Some res), set_error = Some None, set_loading = None\<rparr>
                  | Inl err \<Rightarrow> \<lparr>set_data = None, set_error = Some (Some err), set_loading = None\<rparr>),
            (key, \<lparr>set_data = None, set_error = None, set_loading = Some False\<rparr>)]"
    by (cases awaited)
       (simp_all add: Let_def cell_settle states_settle updates_settle updateSlice_upd
          spread_loading_is spread_data_res spread_error_is,
        simp_all add: loading_is_def data_res_def error_is_def)
next
  show "let s0 = cell w;
        s1 = s0(key := (s0 key)\<lparr>loading := True\<rparr>);
        s2 = s1(key := (case awaited of
                          Inr res \<Rightarrow> (s1 key)\<lparr>data := Some res, error := None\<rparr>
                        | Inl err \<Rightarrow> (s1 key)\<lparr>error := Some err\<rparr>));
        s3 = s2(key := (s2 key)\<lparr>loading := False\<rparr>)
    in cell (settle key awaited (fetch_call key w)) = s3 \<and>
       states (settle key awaited (fetch_call key w)) = states w @ [s1, s2, s3] \<and>
       updates (settle key awaited (fetch_call key w)) =
         updates w @
           [(key, \<lparr>set_data = None, set_error = None, set_loading = Some True\<rparr>),
            (key, case awaited of
                    Inr res \<Rightarrow> \<lparr>set_data = Some (Some res), set_error = Some None, set_loading = None\<rparr>
                  | Inl err \<Rightarrow> \<lparr>set_data = None, set_error = Some (Some err), set_loading = None\<rparr>),
            (key, \<lparr>set_data = None, set_error = None, set_loading = Some False\<rparr>)]"
    by (cases awaited)
       (simp_all add: Let_def cell_settle states_settle updates_settle cell_fetch_call
          states_fetch_call updates_fetch_call updateSlice_upd
          spread_loading_is spread_data_res spread_error_is,
        simp_all add: loading_is_def data_res_def error_is_def)
qed

subsection \<open>Errors when setData may throw\<close>






end
